theory Spec2Isabelle
  imports Main "HOL-Library.Sublist"
begin

section \<open>Data model\<close>

text \<open>
  The program (\<^verbatim>\<open>src/main.py\<close>) reads job postings from a paginated search API and
  stores the ones that pass two checks in one SQLite table.

  A Python \<^verbatim>\<open>str\<close> is the list of its Unicode code points. A posting is a JSON object
  that the code reads with \<^verbatim>\<open>dict.get\<close>, so every key may be absent, and a key that is
  there may hold JSON \<^verbatim>\<open>null\<close>, which Python reads as \<^verbatim>\<open>None\<close>. A key is therefore an
  option (\<open>None\<close> for an absent key) of a nullable value: \<open>Null\<close>, or \<open>Val x\<close> for a
  value \<open>x\<close> of the type the key has in the API, a string, an object or an array of
  objects. The records follow the keys that \<^verbatim>\<open>save_to_db\<close> reads.
\<close>

type_synonym str = "nat list"

datatype 'a nullable = Null | Val 'a

record industry_obj =
  i_name :: "str nullable option"

record employer_obj =
  e_id :: "str nullable option"
  e_name :: "str nullable option"
  e_industries :: "industry_obj list nullable option"

record address_obj =
  a_city :: "str nullable option"

record area_obj =
  ar_name :: "str nullable option"

record phone_obj =
  ph_country :: "str nullable option"
  ph_city :: "str nullable option"
  ph_number :: "str nullable option"
  ph_comment :: "str nullable option"

record contacts_obj =
  c_name :: "str nullable option"
  c_email :: "str nullable option"
  c_phones :: "phone_obj list nullable option"

record role_obj =
  r_name :: "str nullable option"

record posting =
  p_id :: "str nullable option"
  p_name :: "str nullable option"
  p_alternate_url :: "str nullable option"
  p_employer :: "employer_obj nullable option"
  p_address :: "address_obj nullable option"
  p_area :: "area_obj nullable option"
  p_contacts :: "contacts_obj nullable option"
  p_professional_roles :: "role_obj list nullable option"
  p_published_at :: "str nullable option"

text \<open>
  A row of the table \<^verbatim>\<open>hh_vacancies\<close>, one field per column, in the order of the
  \<^verbatim>\<open>INSERT\<close> statement; the column \<^verbatim>\<open>id\<close> is the field \<open>vac_id\<close>, as the variable
  bound to it is called. A column holds text or \<^verbatim>\<open>NULL\<close>, which is what the driver
  binds for \<^verbatim>\<open>None\<close>. The table is the list of its rows in insertion order.
\<close>

record stored_record =
  vac_id :: "str nullable"
  vacancy_name :: "str nullable"
  url :: "str nullable"
  employer_id :: "str nullable"
  employer_name :: "str nullable"
  city :: "str nullable"
  contact_name :: "str nullable"
  phones :: "str nullable"
  email :: "str nullable"
  prof_roles :: "str nullable"
  industry :: "str nullable"
  published_at :: "str nullable"

type_synonym db = "stored_record list"

text \<open>
  The exceptions that leave the functions modelled here: the two kinds a request raises
  (\<^verbatim>\<open>raise_for_status\<close> with the status code, or the transport), and the three that the
  loop bodies raise on a value they do not expect.
\<close>

datatype exn = HTTPError int | RequestException | ValueError | TypeError | AttributeError

section \<open>Configuration\<close>

definition EXCLUDED_EMPLOYEE_IDS :: "int list" where
  "EXCLUDED_EMPLOYEE_IDS =
    [3177, 999442, 9330017, 10871726, 3443127, 2657797, 6153907, 2156474, 1545374,
     2553761, 1498795, 1999994, 5481550, 9579070, 3112459, 10004751, 11842692,
     3089914, 10623824, 9860737, 4263964, 9623282, 2899434, 3094193, 5830512,
     57073, 11056965, 4174021, 10753971, 1729313, 2022372, 5388489, 1740, 10753971,
     5805688, 611692, 4263964, 4856020, 3390849, 5302705, 5547644, 10753971,
     11571595, 11124587, 10321769, 11695543, 4671816, 2732037, 4333013, 11807162,
     2800609, 11807162, 5193393, 1141344, 9330017, 5687059, 3315744]"

text \<open>An ASCII literal of the source as a \<open>str\<close>.\<close>

definition ustr :: "string \<Rightarrow> str" where
  "ustr s = map of_char s"

text \<open>The placeholder literal of the source (Russian for "not specified").\<close>

definition NOT_SPECIFIED :: str where
  "NOT_SPECIFIED =
     [0x41D, 0x435, 0x20, 0x443, 0x43A, 0x430, 0x437, 0x430, 0x43D, 0x43E]"

section \<open>Python primitives used by the code\<close>

text \<open>\<^verbatim>\<open>d.get(key, default)\<close> on a key that may be absent.\<close>

definition get_d :: "'a option \<Rightarrow> 'a \<Rightarrow> 'a" where
  "get_d v d = (case v of None \<Rightarrow> d | Some x \<Rightarrow> x)"

text \<open>
  The truth value of a string or \<^verbatim>\<open>None\<close>, and how an f-string renders it.
\<close>

definition truthy :: "str nullable \<Rightarrow> bool" where
  "truthy v = (case v of Null \<Rightarrow> False | Val s \<Rightarrow> s \<noteq> [])"

definition fmt :: "str nullable \<Rightarrow> str" where
  "fmt v = (case v of Null \<Rightarrow> ustr ''None'' | Val s \<Rightarrow> s)"

text \<open>
  \<^verbatim>\<open>str.isdigit()\<close> is false on the empty string and true when every character is a
  digit, that is, when its Unicode property \<^verbatim>\<open>Numeric_Type\<close> is \<^verbatim>\<open>Digit\<close> or
  \<^verbatim>\<open>Decimal\<close>. The table lists the ranges of these code points in Unicode 14.0, the
  version of CPython 3.11; it holds the ASCII digits, the decimal digits of the other
  scripts, and digits such as superscripts and circled digits that are no decimal
  digits.
\<close>

definition digit_ranges :: "(nat \<times> nat) list" where
  "digit_ranges =
    [(0x30, 0x39), (0xB2, 0xB3), (0xB9, 0xB9), (0x660, 0x669), (0x6F0, 0x6F9), (0x7C0,
     0x7C9), (0x966, 0x96F), (0x9E6, 0x9EF), (0xA66, 0xA6F), (0xAE6, 0xAEF), (0xB66,
     0xB6F), (0xBE6, 0xBEF), (0xC66, 0xC6F), (0xCE6, 0xCEF), (0xD66, 0xD6F), (0xDE6,
     0xDEF), (0xE50, 0xE59), (0xED0, 0xED9), (0xF20, 0xF29), (0x1040, 0x1049), (0x1090,
     0x1099), (0x1369, 0x1371), (0x17E0, 0x17E9), (0x1810, 0x1819), (0x1946, 0x194F),
     (0x19D0, 0x19DA), (0x1A80, 0x1A89), (0x1A90, 0x1A99), (0x1B50, 0x1B59), (0x1BB0,
     0x1BB9), (0x1C40, 0x1C49), (0x1C50, 0x1C59), (0x2070, 0x2070), (0x2074, 0x2079),
     (0x2080, 0x2089), (0x2460, 0x2468), (0x2474, 0x247C), (0x2488, 0x2490), (0x24EA,
     0x24EA), (0x24F5, 0x24FD), (0x24FF, 0x24FF), (0x2776, 0x277E), (0x2780, 0x2788),
     (0x278A, 0x2792), (0xA620, 0xA629), (0xA8D0, 0xA8D9), (0xA900, 0xA909), (0xA9D0,
     0xA9D9), (0xA9F0, 0xA9F9), (0xAA50, 0xAA59), (0xABF0, 0xABF9), (0xFF10, 0xFF19),
     (0x104A0, 0x104A9), (0x10A40, 0x10A43), (0x10D30, 0x10D39), (0x10E60, 0x10E68),
     (0x11052, 0x1105A), (0x11066, 0x1106F), (0x110F0, 0x110F9), (0x11136, 0x1113F),
     (0x111D0, 0x111D9), (0x112F0, 0x112F9), (0x11450, 0x11459), (0x114D0, 0x114D9),
     (0x11650, 0x11659), (0x116C0, 0x116C9), (0x11730, 0x11739), (0x118E0, 0x118E9),
     (0x11950, 0x11959), (0x11C50, 0x11C59), (0x11D50, 0x11D59), (0x11DA0, 0x11DA9),
     (0x16A60, 0x16A69), (0x16AC0, 0x16AC9), (0x16B50, 0x16B59), (0x1D7CE, 0x1D7FF),
     (0x1E140, 0x1E149), (0x1E2F0, 0x1E2F9), (0x1E950, 0x1E959), (0x1F100, 0x1F10A),
     (0x1FBF0, 0x1FBF9)]"

definition is_digit :: "nat \<Rightarrow> bool" where
  "is_digit c = list_ex (\<lambda>(lo, hi). lo \<le> c \<and> c \<le> hi) digit_ranges"

definition isdigit :: "str \<Rightarrow> bool" where
  "isdigit s = (s \<noteq> [] \<and> list_all is_digit s)"

text \<open>
  The decimal digits (\<^verbatim>\<open>Numeric_Type = Decimal\<close>) come in runs of ten, zero first;
  the table lists the zero of every run.
\<close>

definition decimal_zeros :: "nat list" where
  "decimal_zeros =
    [0x30, 0x660, 0x6F0, 0x7C0, 0x966, 0x9E6, 0xA66, 0xAE6, 0xB66, 0xBE6, 0xC66, 0xCE6,
     0xD66, 0xDE6, 0xE50, 0xED0, 0xF20, 0x1040, 0x1090, 0x17E0, 0x1810, 0x1946, 0x19D0,
     0x1A80, 0x1A90, 0x1B50, 0x1BB0, 0x1C40, 0x1C50, 0xA620, 0xA8D0, 0xA900, 0xA9D0,
     0xA9F0, 0xAA50, 0xABF0, 0xFF10, 0x104A0, 0x10D30, 0x11066, 0x110F0, 0x11136,
     0x111D0, 0x112F0, 0x11450, 0x114D0, 0x11650, 0x116C0, 0x11730, 0x118E0, 0x11950,
     0x11C50, 0x11D50, 0x11DA0, 0x16A60, 0x16AC0, 0x16B50, 0x1D7CE, 0x1D7D8, 0x1D7E2,
     0x1D7EC, 0x1D7F6, 0x1E140, 0x1E2F0, 0x1E950, 0x1FBF0]"

definition decimal_value :: "nat \<Rightarrow> nat option" where
  "decimal_value c =
     (case find (\<lambda>z. z \<le> c \<and> c < z + 10) decimal_zeros of
        None \<Rightarrow> None
      | Some z \<Rightarrow> Some (c - z))"

text \<open>
  \<^verbatim>\<open>int(s)\<close> on a string, base ten. The string is first taken to ASCII: a code point
  below 127 stays, a white space character from 127 on becomes a space, a decimal digit
  becomes its ASCII digit, and anything else is an error. The ASCII text is then read
  as white space, an optional sign, digits with single underscores between them, and
  white space; only the six ASCII white space characters count here. More than 4300
  digits are refused (the default limit of CPython 3.11). \<open>None\<close> stands for
  \<^verbatim>\<open>ValueError\<close>.
\<close>

definition is_unicode_space :: "nat \<Rightarrow> bool" where
  "is_unicode_space c =
     (c \<in> set [0x85, 0xA0, 0x1680, 0x2028, 0x2029, 0x202F, 0x205F, 0x3000]
      \<or> (0x2000 \<le> c \<and> c \<le> 0x200A))"

definition to_ascii :: "nat \<Rightarrow> nat option" where
  "to_ascii c =
     (if c < 127 then Some c
      else if is_unicode_space c then Some 32
      else map_option (\<lambda>d. 48 + d) (decimal_value c))"

definition is_space :: "nat \<Rightarrow> bool" where
  "is_space c = (c \<in> set [9, 10, 11, 12, 13, 32])"

definition is_ascii_digit :: "nat \<Rightarrow> bool" where
  "is_ascii_digit c = (48 \<le> c \<and> c \<le> 57)"

definition int_of_digits :: "str \<Rightarrow> int" where
  "int_of_digits s = foldl (\<lambda>a c. 10 * a + (int c - 48)) 0 s"

fun int_body_ok :: "str \<Rightarrow> bool" where
  "int_body_ok [] = False"
| "int_body_ok [c] = is_ascii_digit c"
| "int_body_ok (c # d # r) =
     (is_ascii_digit c \<and> (if d = 95 then int_body_ok r else int_body_ok (d # r)))"

definition MAX_STR_DIGITS :: nat where
  "MAX_STR_DIGITS = 4300"

definition py_int :: "str \<Rightarrow> int option" where
  "py_int s =
     (case those (map to_ascii s) of
        None \<Rightarrow> None
      | Some a \<Rightarrow>
         (let t = dropWhile is_space a;
              negative = (case t of c # _ \<Rightarrow> c = 45 | [] \<Rightarrow> False);
              u = (case t of c # r \<Rightarrow> if c = 45 \<or> c = 43 then r else t | [] \<Rightarrow> t);
              body = takeWhile (\<lambda>c. is_ascii_digit c \<or> c = 95) u;
              rest = dropWhile (\<lambda>c. is_ascii_digit c \<or> c = 95) u;
              digits = filter is_ascii_digit body
          in if int_body_ok body \<and> list_all is_space rest \<and> length digits \<le> MAX_STR_DIGITS
             then Some ((if negative then - 1 else 1) * int_of_digits digits)
             else None))"

text \<open>\<^verbatim>\<open>sep.join(xs)\<close> on a list of strings.\<close>

fun join :: "str \<Rightarrow> str list \<Rightarrow> str" where
  "join sep [] = []"
| "join sep [x] = x"
| "join sep (x # y # ys) = x @ sep @ join sep (y # ys)"

section \<open>The store: \<^verbatim>\<open>save_to_db\<close>\<close>

text \<open>
  \<^verbatim>\<open>INSERT OR IGNORE\<close> into a table whose primary key is the text column \<^verbatim>\<open>id\<close>: the
  row is appended unless a row with the same key is there, and then nothing happens. A
  \<^verbatim>\<open>NULL\<close> key equals no key, not even another \<^verbatim>\<open>NULL\<close>, and SQLite lets a text
  primary key be \<^verbatim>\<open>NULL\<close>: such a row is always appended.
\<close>

definition insert_or_ignore :: "stored_record \<Rightarrow> db \<Rightarrow> db" where
  "insert_or_ignore r d =
     (if vac_id r \<noteq> Null \<and> vac_id r \<in> set (map vac_id d) then d else d @ [r])"

text \<open>
  The loop over \<^verbatim>\<open>phones_arr\<close>: it renders every phone and sets \<^verbatim>\<open>has_contacts\<close> when
  one has a non-empty number.
\<close>

fun phones_loop :: "phone_obj list \<Rightarrow> str list \<Rightarrow> bool \<Rightarrow> str list \<times> bool" where
  "phones_loop [] phone_strings has_contacts = (phone_strings, has_contacts)"
| "phones_loop (phone # rest) phone_strings has_contacts =
     (let country = get_d (ph_country phone) (Val []);
          city_code = get_d (ph_city phone) (Val []);
          number = get_d (ph_number phone) (Val []);
          comment = get_d (ph_comment phone) (Val []);
          has_contacts' = (if truthy number then True else has_contacts);
          phone_full = ustr ''+'' @ fmt country @ ustr '' ('' @ fmt city_code @ ustr '') ''
                         @ fmt number;
          phone_full' = (if truthy comment then phone_full @ ustr '' ['' @ fmt comment @ ustr '']''
                         else phone_full)
      in phones_loop rest (phone_strings @ [phone_full']) has_contacts')"

text \<open>
  The exclusion check (lines 189 to 192): \<open>Inr True\<close> when the posting is skipped,
  \<open>Inr False\<close> when the body goes on, and \<^verbatim>\<open>ValueError\<close> when \<^verbatim>\<open>int\<close> refuses a
  string that \<^verbatim>\<open>isdigit\<close> lets through.
\<close>

definition exclusion_check :: "str nullable \<Rightarrow> exn + bool" where
  "exclusion_check employer_id' =
     (case employer_id' of
        Null \<Rightarrow> Inr False
      | Val s \<Rightarrow>
          if s \<noteq> [] \<and> isdigit s
          then (case py_int s of
                  None \<Rightarrow> Inl ValueError
                | Some n \<Rightarrow> Inr (n \<in> set EXCLUDED_EMPLOYEE_IDS))
          else Inr False)"

text \<open>
  The city (lines 198 to 203): the city of the address when the address is an object
  with a non-empty city, and the name of the area otherwise, where \<^verbatim>\<open>area.get\<close> raises
  on \<^verbatim>\<open>None\<close>.
\<close>

definition area_name :: "posting \<Rightarrow> exn + str nullable" where
  "area_name vac =
     (case get_d (p_area vac) (Val \<lparr>ar_name = None\<rparr>) of
        Null \<Rightarrow> Inl AttributeError
      | Val area \<Rightarrow> Inr (get_d (ar_name area) (Val NOT_SPECIFIED)))"

definition resolve_city :: "posting \<Rightarrow> exn + str nullable" where
  "resolve_city vac =
     (case get_d (p_address vac) Null of
        Null \<Rightarrow> area_name vac
      | Val address \<Rightarrow>
          (case a_city address of
             None \<Rightarrow> area_name vac
           | Some c \<Rightarrow> if truthy c then Inr c else area_name vac))"

text \<open>
  The contacts (lines 206 to 214): name, email and phone array, with the defaults when
  \<^verbatim>\<open>contacts\<close> is absent or \<^verbatim>\<open>null\<close>. An empty \<^verbatim>\<open>contacts\<close> object is false in Python
  and takes the \<^verbatim>\<open>else\<close> branch, which gives the same three values as the defaults of
  the first branch.
\<close>

definition read_contacts ::
  "posting \<Rightarrow> str nullable \<times> str nullable \<times> phone_obj list nullable" where
  "read_contacts vac =
     (case get_d (p_contacts vac) Null of
        Null \<Rightarrow> (Val [], Val [], Val [])
      | Val contacts \<Rightarrow>
          (get_d (c_name contacts) (Val []), get_d (c_email contacts) (Val []),
           get_d (c_phones contacts) (Val [])))"

text \<open>
  The professional roles (lines 239 to 241): iterating \<^verbatim>\<open>None\<close> raises, and so does
  \<^verbatim>\<open>join\<close> on a name that is \<^verbatim>\<open>None\<close>.
\<close>

fun role_names :: "str nullable list \<Rightarrow> exn + str list" where
  "role_names [] = Inr []"
| "role_names (Null # ns) = Inl TypeError"
| "role_names (Val s # ns) = (case role_names ns of Inl e \<Rightarrow> Inl e | Inr ss \<Rightarrow> Inr (s # ss))"

definition join_roles :: "posting \<Rightarrow> exn + str" where
  "join_roles vac =
     (case get_d (p_professional_roles vac) (Val []) of
        Null \<Rightarrow> Inl TypeError
      | Val prof_roles_arr \<Rightarrow>
          (let prof_roles_names = map (\<lambda>role. get_d (r_name role) (Val [])) prof_roles_arr
           in case role_names prof_roles_names of
                Inl e \<Rightarrow> Inl e
              | Inr names \<Rightarrow> Inr (join (ustr '', '') names)))"

text \<open>
  The body of the loop of \<^verbatim>\<open>save_to_db\<close> up to the \<^verbatim>\<open>INSERT\<close>, in the order of the
  source: the exception it raises, or \<open>None\<close> when the posting is skipped by one of the
  two \<^verbatim>\<open>continue\<close> statements, or the row to insert. An absent \<^verbatim>\<open>employer\<close> is the
  empty object of the default and a \<^verbatim>\<open>null\<close> one makes \<^verbatim>\<open>employer.get\<close> raise;
  \<^verbatim>\<open>len\<close> raises on a \<^verbatim>\<open>null\<close> industry list and the \<^verbatim>\<open>for\<close> loop on a \<^verbatim>\<open>null\<close>
  phone array.
\<close>

definition save_to_db_row :: "posting \<Rightarrow> exn + stored_record option" where
  "save_to_db_row vac =
     (let vac_id' = get_d (p_id vac) (Val []);
          vacancy_name' = get_d (p_name vac) (Val []);
          url' = get_d (p_alternate_url vac) (Val [])
      in case get_d (p_employer vac)
                (Val \<lparr>e_id = None, e_name = None, e_industries = None\<rparr>) of
           Null \<Rightarrow> Inl AttributeError
         | Val employer \<Rightarrow>
            (let employer_id' = get_d (e_id employer) (Val []) in
             case exclusion_check employer_id' of
               Inl e \<Rightarrow> Inl e
             | Inr True \<Rightarrow> Inr None
             | Inr False \<Rightarrow>
                (let employer_name' = get_d (e_name employer) (Val NOT_SPECIFIED) in
                 case get_d (e_industries employer) (Val []) of
                   Null \<Rightarrow> Inl TypeError
                 | Val industries \<Rightarrow>
                    (let industry' = (case industries of
                                        [] \<Rightarrow> Val []
                                      | i # _ \<Rightarrow> get_d (i_name i) (Val []))
                     in case resolve_city vac of
                          Inl e \<Rightarrow> Inl e
                        | Inr city' \<Rightarrow>
                           (case read_contacts vac of
                              (contact_name', email', Null) \<Rightarrow> Inl TypeError
                            | (contact_name', email', Val phones_arr) \<Rightarrow>
                               (let (phone_strings, has_contacts) =
                                      phones_loop phones_arr [] False
                                in if \<not> truthy email' \<and> \<not> has_contacts then Inr None
                                   else
                                    (let phones' = join [10] phone_strings in
                                     case join_roles vac of
                                       Inl e \<Rightarrow> Inl e
                                     | Inr prof_roles' \<Rightarrow>
                                        (let published_at' =
                                               get_d (p_published_at vac) (Val [])
                                         in Inr (Some
                                              \<lparr>vac_id = vac_id',
                                               vacancy_name = vacancy_name', url = url',
                                               employer_id = employer_id',
                                               employer_name = employer_name',
                                               city = city',
                                               contact_name = contact_name',
                                               phones = Val phones', email = email',
                                               prof_roles = Val prof_roles',
                                               industry = industry',
                                               published_at = published_at'\<rparr>)))))))))"

text \<open>
  \<^verbatim>\<open>save_to_db(vacancies)\<close>. The loop runs in one transaction on a connection of its
  own, committed once after the loop: \<open>save_to_db_loop\<close> is the loop on the table of
  the transaction, and \<open>save_to_db\<close> gives the table that other connections see
  afterwards, which is the old one when an exception leaves the loop before the commit,
  together with that exception.
\<close>

fun save_to_db_loop :: "posting list \<Rightarrow> db \<Rightarrow> exn + db" where
  "save_to_db_loop [] d = Inr d"
| "save_to_db_loop (vac # vacancies) d =
     (case save_to_db_row vac of
        Inl e \<Rightarrow> Inl e
      | Inr None \<Rightarrow> save_to_db_loop vacancies d
      | Inr (Some r) \<Rightarrow> save_to_db_loop vacancies (insert_or_ignore r d))"

definition save_to_db :: "posting list \<Rightarrow> db \<Rightarrow> db \<times> exn option" where
  "save_to_db vacancies d =
     (case save_to_db_loop vacancies d of
        Inl e \<Rightarrow> (d, Some e)
      | Inr d' \<Rightarrow> (d', None))"

text \<open>
  Uniqueness of the column \<^verbatim>\<open>id\<close> as the primary key index has it: no two rows hold
  the same text; \<^verbatim>\<open>NULL\<close> keys are not compared.
\<close>

definition unique_ids :: "db \<Rightarrow> bool" where
  "unique_ids d = distinct (filter (\<lambda>k. k \<noteq> Null) (map vac_id d))"

text \<open>
  What the two checks of the loop body are about. \<open>excluded\<close> is the guard of the first
  \<^verbatim>\<open>continue\<close> on a string: all its characters are digits and its value is in the list.
  \<open>has_number\<close> is the test that sets \<^verbatim>\<open>has_contacts\<close>. \<open>no_contact\<close> says that the
  email of a posting is empty and none of its phone entries has a non-empty number, and
  \<open>email_only\<close> that its email is not empty and it has no phone entry; both are read off
  the three values of \<open>read_contacts\<close>.
\<close>

definition excluded :: "str \<Rightarrow> bool" where
  "excluded eid =
     (isdigit eid \<and> (case py_int eid of None \<Rightarrow> False
                      | Some n \<Rightarrow> n \<in> set EXCLUDED_EMPLOYEE_IDS))"



definition email_only :: "posting \<Rightarrow> bool" where
  "email_only vac =
     (case read_contacts vac of
        (contact_name', email', Null) \<Rightarrow> False
      | (contact_name', email', Val phones_arr) \<Rightarrow> truthy email' \<and> phones_arr = [])"

text \<open>
  The specification says "the employer id parses as an integer that is a member of the
  exclusion set". The parse of the language is \<^verbatim>\<open>int\<close>, so these are its words, on the
  employer id that the loop body reads from a posting (\<open>None\<close> when \<^verbatim>\<open>employer\<close> is
  \<^verbatim>\<open>null\<close>).
\<close>

definition posting_employer_id :: "posting \<Rightarrow> str nullable option" where
  "posting_employer_id vac =
     (case get_d (p_employer vac) (Val \<lparr>e_id = None, e_name = None, e_industries = None\<rparr>) of
        Null \<Rightarrow> None
      | Val employer \<Rightarrow> Some (get_d (e_id employer) (Val [])))"

definition parses_as_excluded :: "posting \<Rightarrow> bool" where
  "parses_as_excluded vac =
     (case posting_employer_id vac of
        Some (Val eid) \<Rightarrow>
          (case py_int eid of None \<Rightarrow> False | Some n \<Rightarrow> n \<in> set EXCLUDED_EMPLOYEE_IDS)
      | _ \<Rightarrow> False)"

section \<open>The range walker: \<^verbatim>\<open>parse_by_date_range\<close>\<close>

text \<open>
  One request to the search API either raises (\<^verbatim>\<open>raise_for_status\<close>, the transport, or
  the decoding of the body) or gives a JSON object of which the code reads \<^verbatim>\<open>items\<close>
  and \<^verbatim>\<open>pages\<close>, both with a default; either key may be absent or \<^verbatim>\<open>null\<close>. A window is
  a pair of days (first, last), each the ordinal of a calendar date; the code renders
  them as the start of the first day and the end of the last. The upstream is a function
  of the window and the page: within one run no window and page is asked for twice, so
  this is no restriction.

  The state of a run is the table and what the run has done so far: the requests issued,
  the windows whose walk has started (its first progress line) and the total each
  finished walk has printed (its last line). \<^verbatim>\<open>parse_by_date_range\<close> has no
  \<^verbatim>\<open>return\<close> statement: it gives nothing back to its caller but an exception.
\<close>

record response =
  items :: "posting list nullable option"
  pages :: "int nullable option"

type_synonym window = "int \<times> int"

type_synonym upstream = "window \<Rightarrow> nat \<Rightarrow> exn + response"

record run_state =
  store :: db
  requests :: "(window \<times> nat) list"
  started :: "window list"
  totals :: "(window \<times> nat) list"

text \<open>
  The items of a page as the test \<^verbatim>\<open>if not vacancies\<close> sees them: an absent key is
  the empty list of the default, and \<^verbatim>\<open>null\<close> is false like the empty list.
\<close>

definition page_items :: "response \<Rightarrow> posting list" where
  "page_items data = (case get_d (items data) (Val []) of Null \<Rightarrow> [] | Val vs \<Rightarrow> vs)"

text \<open>
  The loop \<^verbatim>\<open>while True\<close>. An exception of the request, of \<^verbatim>\<open>save_to_db\<close> or of the
  comparison of the page with a \<^verbatim>\<open>null\<close> page count leaves the function before its last
  line; an item list that is empty or \<^verbatim>\<open>null\<close> is false and ends the loop.
\<close>

function parse_by_date_range_loop ::
  "upstream \<Rightarrow> window \<Rightarrow> nat \<Rightarrow> nat \<Rightarrow> run_state \<Rightarrow> run_state \<times> exn option" where
  "parse_by_date_range_loop fetch w page total_saved st =
     (let st1 = st\<lparr>requests := requests st @ [(w, page)]\<rparr> in
      case fetch w page of
        Inl e \<Rightarrow> (st1, Some e)
      | Inr data \<Rightarrow>
          (let vacancies = page_items data in
           if vacancies = [] then (st1\<lparr>totals := totals st1 @ [(w, total_saved)]\<rparr>, None)
           else
            (case save_to_db vacancies (store st1) of
               (d, Some e) \<Rightarrow> (st1\<lparr>store := d\<rparr>, Some e)
             | (d, None) \<Rightarrow>
                (let st2 = st1\<lparr>store := d\<rparr>;
                     total_saved' = total_saved + length vacancies;
                     page' = page + 1
                 in case get_d (pages data) (Val 1) of
                      Null \<Rightarrow> (st2, Some TypeError)
                    | Val reported \<Rightarrow>
                        if int page' \<ge> reported
                        then (st2\<lparr>totals := totals st2 @ [(w, total_saved')]\<rparr>, None)
                        else if page' \<ge> 200
                        then (st2\<lparr>totals := totals st2 @ [(w, total_saved')]\<rparr>, None)
                        else parse_by_date_range_loop fetch w page' total_saved' st2))))"
  by pat_completeness auto
termination
  by (relation "measure (\<lambda>(fetch, w, page, total_saved, st). 200 - page)") auto

declare parse_by_date_range_loop.simps [simp del]

definition parse_by_date_range ::
  "upstream \<Rightarrow> window \<Rightarrow> run_state \<Rightarrow> run_state \<times> exn option" where
  "parse_by_date_range fetch w st =
     parse_by_date_range_loop fetch w 0 0 (st\<lparr>started := started st @ [w]\<rparr>)"

text \<open>
  The condition under which a turn of the loop at a page goes on to the next page: the
  request gives items, \<^verbatim>\<open>save_to_db\<close> completes, and the next page is below the
  reported page count and below 200.
\<close>

definition next_page :: "upstream \<Rightarrow> window \<Rightarrow> nat \<Rightarrow> run_state \<Rightarrow> bool" where
  "next_page fetch w page st =
     (case fetch w page of
        Inl e \<Rightarrow> False
      | Inr data \<Rightarrow>
          page_items data \<noteq> [] \<and> snd (save_to_db (page_items data) (store st)) = None
          \<and> (case get_d (pages data) (Val 1) of
                Null \<Rightarrow> False
              | Val reported \<Rightarrow> int (page + 1) < reported \<and> page + 1 < 200))"

section \<open>The window partitioner: \<^verbatim>\<open>parse_with_parts\<close>\<close>

text \<open>
  \<^verbatim>\<open>datetime.strptime(s, "%Y-%m-%d")\<close> gives midnight of a calendar date; the code only
  compares such values, subtracts them and adds whole days, so a date is its ordinal,
  the number of days since 0001-01-01 as \<^verbatim>\<open>date.toordinal\<close> counts them.
\<close>

definition is_leap :: "int \<Rightarrow> bool" where
  "is_leap y = (y mod 4 = 0 \<and> (y mod 100 \<noteq> 0 \<or> y mod 400 = 0))"

definition days_before_year :: "int \<Rightarrow> int" where
  "days_before_year year = (let y = year - 1 in y * 365 + y div 4 - y div 100 + y div 400)"

definition days_before_month :: "int \<Rightarrow> int \<Rightarrow> int" where
  "days_before_month year month =
     [0, 31, 59, 90, 120, 151, 181, 212, 243, 273, 304, 334] ! nat (month - 1)
       + (if month > 2 \<and> is_leap year then 1 else 0)"

definition ymd2ord :: "int \<Rightarrow> int \<Rightarrow> int \<Rightarrow> int" where
  "ymd2ord year month day = days_before_year year + days_before_month year month + day"

text \<open>
  The loop \<^verbatim>\<open>for i in range(parts)\<close>, with the walk of a window as a parameter: the
  walk takes the state to a new state and may raise, which ends the loop. The loop also
  ends at its \<^verbatim>\<open>break\<close>, when the next start is past \<^verbatim>\<open>dt_end\<close>.
\<close>

function parse_with_parts_loop ::
  "(window \<Rightarrow> 'st \<Rightarrow> 'st \<times> 'e option) \<Rightarrow> int \<Rightarrow> int \<Rightarrow> int \<Rightarrow> int \<Rightarrow> int \<Rightarrow> int \<Rightarrow> 'st
     \<Rightarrow> 'st \<times> 'e option" where
  "parse_with_parts_loop walk dt_end days_per_part remainder parts i current_start st =
     (if i < parts then
        (let extra = (if i < remainder then 1 else 0);
             current_end0 = current_start + (days_per_part + extra - 1);
             current_end = (if current_end0 > dt_end then dt_end else current_end0)
         in case walk (current_start, current_end) st of
              (st', Some e) \<Rightarrow> (st', Some e)
            | (st', None) \<Rightarrow>
                (let current_start' = current_end + 1
                 in if current_start' > dt_end then (st', None)
                    else parse_with_parts_loop walk dt_end days_per_part remainder parts
                           (i + 1) current_start' st'))
      else (st, None))"
  by pat_completeness auto
termination
  by (relation "measure (\<lambda>(walk, dt_end, days_per_part, remainder, parts, i, current_start, st).
        nat (parts - i))") auto

declare parse_with_parts_loop.simps [simp del]

datatype config_error = EndBeforeStart | PartsNotPositive

datatype outcome = Completed | ConfigError config_error | Raised exn

definition parse_with_parts ::
  "upstream \<Rightarrow> int \<Rightarrow> int \<Rightarrow> int \<Rightarrow> run_state \<Rightarrow> run_state \<times> outcome" where
  "parse_with_parts fetch dt_start dt_end parts st =
     (if dt_end < dt_start then (st, ConfigError EndBeforeStart)
      else if parts \<le> 0 then (st, ConfigError PartsNotPositive)
      else
       (let total_days = (dt_end - dt_start) + 1;
            days_per_part = total_days div parts;
            remainder = total_days mod parts
        in case parse_with_parts_loop (parse_by_date_range fetch) dt_end days_per_part
                  remainder parts 0 dt_start st of
             (st', None) \<Rightarrow> (st', Completed)
           | (st', Some e) \<Rightarrow> (st', Raised e)))"

text \<open>
  The windows \<^verbatim>\<open>parse_with_parts\<close> computes: the same guards and the same loop, with a
  walk that only records the window it is given and never raises.
\<close>

definition record_window :: "window \<Rightarrow> window list \<Rightarrow> window list \<times> unit option" where
  "record_window w ws = (ws @ [w], None)"

definition partition_windows :: "int \<Rightarrow> int \<Rightarrow> int \<Rightarrow> window list" where
  "partition_windows dt_start dt_end parts =
     (if dt_end < dt_start then []
      else if parts \<le> 0 then []
      else
       (let total_days = (dt_end - dt_start) + 1;
            days_per_part = total_days div parts;
            remainder = total_days mod parts
        in fst (parse_with_parts_loop record_window dt_end days_per_part remainder parts 0
                  dt_start [])))"

definition days :: "window \<Rightarrow> int" where
  "days w = snd w - fst w + 1"

text \<open>
  Three notions used to state what the loop computes: the end of the window of iteration
  \<open>i\<close>, as the loop body computes it from the start of the window; the window of
  iteration \<open>i\<close> in closed form, which the loop is proved to compute; and a list of
  windows in which every window has at least one day and starts the day after the one
  before it ends.
\<close>

definition window_end :: "int \<Rightarrow> int \<Rightarrow> int \<Rightarrow> int \<Rightarrow> int \<Rightarrow> int" where
  "window_end dt_end days_per_part remainder i current_start =
     (let extra = (if i < remainder then 1 else 0);
          current_end = current_start + (days_per_part + extra - 1)
      in if current_end > dt_end then dt_end else current_end)"

definition nth_window :: "int \<Rightarrow> int \<Rightarrow> int \<Rightarrow> int \<Rightarrow> window" where
  "nth_window dt_start days_per_part remainder i =
     (dt_start + i * days_per_part + min i remainder,
      dt_start + (i + 1) * days_per_part + min (i + 1) remainder - 1)"

fun contiguous :: "window list \<Rightarrow> bool" where
  "contiguous [] = True"
| "contiguous [w] = (fst w \<le> snd w)"
| "contiguous (w # w' # ws) = (fst w \<le> snd w \<and> fst w' = snd w + 1 \<and> contiguous (w' # ws))"

section \<open>Example inputs\<close>

text \<open>
  A posting with an id, an employer id and, when given, contacts; every other key is
  absent. The contacts are an email and nothing else.
\<close>

definition example_contacts :: contacts_obj where
  "example_contacts =
     \<lparr>c_name = None, c_email = Some (Val (ustr ''hr@example.com'')), c_phones = None\<rparr>"

definition example_posting :: "str \<Rightarrow> str \<Rightarrow> contacts_obj nullable option \<Rightarrow> posting" where
  "example_posting i eid contacts =
     \<lparr>p_id = Some (Val i), p_name = None, p_alternate_url = None,
      p_employer = Some (Val \<lparr>e_id = Some (Val eid), e_name = None, e_industries = None\<rparr>),
      p_address = None, p_area = None, p_contacts = contacts,
      p_professional_roles = None, p_published_at = None\<rparr>"

text \<open>The row that \<^verbatim>\<open>save_to_db\<close> computes for such a posting with the contacts above.\<close>

definition example_row :: "str \<Rightarrow> str \<Rightarrow> stored_record" where
  "example_row i eid =
     \<lparr>vac_id = Val i, vacancy_name = Val [], url = Val [], employer_id = Val eid,
      employer_name = Val NOT_SPECIFIED, city = Val NOT_SPECIFIED, contact_name = Val [],
      phones = Val [], email = Val (ustr ''hr@example.com''), prof_roles = Val [],
      industry = Val [], published_at = Val []\<rparr>"

text \<open>
  The same posting without the key \<^verbatim>\<open>id\<close>, and with \<^verbatim>\<open>null\<close> for it, both of employer
  42.
\<close>

definition example_posting_no_id :: posting where
  "example_posting_no_id =
     (example_posting [] (ustr ''42'') (Some (Val example_contacts)))\<lparr>p_id := None\<rparr>"

definition example_posting_null_id :: posting where
  "example_posting_null_id =
     (example_posting [] (ustr ''42'') (Some (Val example_contacts)))\<lparr>p_id := Some Null\<rparr>"

text \<open>
  The state before a run on an empty table, and an upstream that answers every request
  with one and the same posting and reported page count.
\<close>

definition initial_state :: run_state where
  "initial_state = \<lparr>store = [], requests = [], started = [], totals = []\<rparr>"

definition upstream_one :: "posting \<Rightarrow> int nullable option \<Rightarrow> upstream" where
  "upstream_one vac reported w page = Inr \<lparr>items = Some (Val [vac]), pages = reported\<rparr>"

section \<open>Properties of the record filter\<close>


lemma isdigit_nonempty: "isdigit s \<Longrightarrow> s \<noteq> []"
  by (simp add: isdigit_def)

lemma exclusion_check_excluded: "excluded s \<Longrightarrow> exclusion_check (Val s) = Inr True"
  by (auto simp: exclusion_check_def excluded_def isdigit_nonempty split: option.splits)

lemma exclusion_check_True:
  "exclusion_check v = Inr True \<Longrightarrow> \<exists>s. v = Val s \<and> excluded s"
  by (auto simp: exclusion_check_def excluded_def split: nullable.splits option.splits if_splits)


lemma save_to_db_row_excluded:
  "posting_employer_id vac = Some (Val eid) \<Longrightarrow> excluded eid \<Longrightarrow> save_to_db_row vac = Inr None"
  by (auto simp: save_to_db_row_def posting_employer_id_def Let_def exclusion_check_excluded
      split: nullable.splits)





section \<open>Properties of the store\<close>

lemma prefix_insert_or_ignore: "prefix d (insert_or_ignore r d)"
  by (simp add: insert_or_ignore_def)

lemma insert_or_ignore_present:
  "vac_id r \<noteq> Null \<Longrightarrow> vac_id r \<in> set (map vac_id d) \<Longrightarrow> insert_or_ignore r d = d"
  by (simp add: insert_or_ignore_def)


lemma insert_or_ignore_null: "vac_id r = Null \<Longrightarrow> insert_or_ignore r d = d @ [r]"
  by (simp add: insert_or_ignore_def)

lemma id_in_insert_or_ignore: "vac_id r \<in> set (map vac_id (insert_or_ignore r d))"
  by (auto simp: insert_or_ignore_def)

lemma unique_ids_insert_or_ignore: "unique_ids d \<Longrightarrow> unique_ids (insert_or_ignore r d)"
  by (auto simp: insert_or_ignore_def unique_ids_def)

lemma distinct_insert_or_ignore:
  "vac_id r \<noteq> Null \<Longrightarrow> distinct (map vac_id d) \<Longrightarrow> distinct (map vac_id (insert_or_ignore r d))"
  by (auto simp: insert_or_ignore_def)

lemma insert_or_ignore_idem: "vac_id r \<noteq> Null \<Longrightarrow>
  insert_or_ignore r (insert_or_ignore r d) = insert_or_ignore r d"
  by (auto simp: insert_or_ignore_def)

lemma filter_key_unique:
  "distinct (filter (\<lambda>k. k \<noteq> n) (map f xs)) \<Longrightarrow> x \<in> set xs \<Longrightarrow> f x \<noteq> n
     \<Longrightarrow> filter (\<lambda>y. f y = f x) xs = [x]"
proof (induction xs)
  case Nil then show ?case by simp
next
  case (Cons a xs)
  show ?case
  proof (cases "a = x")
    case True
    have "filter (\<lambda>y. f y = f x) xs = []"
      using Cons.prems True by (force simp: filter_empty_conv image_iff)
    with True show ?thesis by simp
  next
    case False
    with Cons.prems have x: "x \<in> set xs" by simp
    have d: "distinct (filter (\<lambda>k. k \<noteq> n) (map f xs))"
      using Cons.prems(1) by (simp split: if_splits)
    have "f a \<noteq> f x" using Cons.prems x by (force split: if_splits)
    with Cons.IH[OF d x Cons.prems(3)] show ?thesis by simp
  qed
qed

lemma rows_of_id:
  "unique_ids d \<Longrightarrow> r \<in> set d \<Longrightarrow> vac_id r \<noteq> Null
     \<Longrightarrow> filter (\<lambda>x. vac_id x = vac_id r) d = [r]"
  unfolding unique_ids_def by (rule filter_key_unique)

lemma rows_of_id_le1:
  assumes "unique_ids d" "k \<noteq> Null"
  shows "length (filter (\<lambda>x. vac_id x = k) d) \<le> 1"
proof (cases "k \<in> vac_id ` set d")
  case True
  then obtain r where "r \<in> set d" "vac_id r = k" by auto
  with rows_of_id[OF assms(1) this(1)] assms(2) show ?thesis by simp
next
  case False
  then have "filter (\<lambda>x. vac_id x = k) d = []" by (auto simp: filter_empty_conv)
  then show ?thesis by simp
qed

lemma save_to_db_loop_append:
  "save_to_db_loop (xs @ ys) d
     = (case save_to_db_loop xs d of Inl e \<Rightarrow> Inl e | Inr d' \<Rightarrow> save_to_db_loop ys d')"
  by (induction xs arbitrary: d) (auto split: sum.splits option.splits)

lemma save_to_db_loop_raises:
  "save_to_db_loop vs d = Inl e \<longleftrightarrow>
     (\<exists>before v after. vs = before @ v # after \<and> save_to_db_row v = Inl e
        \<and> (\<forall>u\<in>set before. \<forall>e'. save_to_db_row u \<noteq> Inl e'))"
proof (induction vs arbitrary: d)
  case Nil show ?case by simp
next
  case (Cons a vs)
  show ?case
  proof (cases "save_to_db_row a")
    case (Inl e')
    have "(\<exists>before v after. a # vs = before @ v # after \<and> save_to_db_row v = Inl e
        \<and> (\<forall>u\<in>set before. \<forall>e'. save_to_db_row u \<noteq> Inl e')) \<longleftrightarrow> e' = e"
    proof
      assume "\<exists>before v after. a # vs = before @ v # after \<and> save_to_db_row v = Inl e
        \<and> (\<forall>u\<in>set before. \<forall>e'. save_to_db_row u \<noteq> Inl e')"
      then obtain before v after where h: "a # vs = before @ v # after" "save_to_db_row v = Inl e"
        "\<forall>u\<in>set before. \<forall>e'. save_to_db_row u \<noteq> Inl e'" by blast
      show "e' = e"
      proof (cases before)
        case Nil with h Inl show ?thesis by simp
      next
        case (Cons b bs) with h Inl show ?thesis by auto
      qed
    next
      assume "e' = e"
      with Inl have "a # vs = [] @ a # vs \<and> save_to_db_row a = Inl e
        \<and> (\<forall>u\<in>set []. \<forall>e'. save_to_db_row u \<noteq> Inl e')" by simp
      then show "\<exists>before v after. a # vs = before @ v # after \<and> save_to_db_row v = Inl e
        \<and> (\<forall>u\<in>set before. \<forall>e'. save_to_db_row u \<noteq> Inl e')" by blast
    qed
    with Inl show ?thesis by auto
  next
    case (Inr x)
    have ok: "\<And>e'. save_to_db_row a \<noteq> Inl e'" using Inr by simp
    have "(\<exists>before v after. a # vs = before @ v # after \<and> save_to_db_row v = Inl e
        \<and> (\<forall>u\<in>set before. \<forall>e'. save_to_db_row u \<noteq> Inl e'))
      \<longleftrightarrow> (\<exists>before v after. vs = before @ v # after \<and> save_to_db_row v = Inl e
        \<and> (\<forall>u\<in>set before. \<forall>e'. save_to_db_row u \<noteq> Inl e'))" (is "?L \<longleftrightarrow> ?R")
    proof
      assume ?L
      then obtain before v after where h: "a # vs = before @ v # after" "save_to_db_row v = Inl e"
        "\<forall>u\<in>set before. \<forall>e'. save_to_db_row u \<noteq> Inl e'" by blast
      show ?R
      proof (cases before)
        case Nil with h Inr show ?thesis by simp
      next
        case (Cons b bs)
        with h have "vs = bs @ v # after" "\<forall>u\<in>set bs. \<forall>e'. save_to_db_row u \<noteq> Inl e'" by auto
        with h(2) show ?thesis by blast
      qed
    next
      assume ?R
      then obtain before v after where h: "vs = before @ v # after" "save_to_db_row v = Inl e"
        "\<forall>u\<in>set before. \<forall>e'. save_to_db_row u \<noteq> Inl e'" by blast
      then have "a # vs = (a # before) @ v # after"
        "\<forall>u\<in>set (a # before). \<forall>e'. save_to_db_row u \<noteq> Inl e'" using ok by auto
      with h(2) show ?L by blast
    qed
    moreover have "save_to_db_loop (a # vs) d = Inl e \<longleftrightarrow>
       save_to_db_loop vs (case x of None \<Rightarrow> d | Some r \<Rightarrow> insert_or_ignore r d) = Inl e"
      using Inr by (simp split: option.splits)
    ultimately show ?thesis using Cons.IH by simp
  qed
qed

lemma save_to_db_loop_completes:
  "(\<exists>d'. save_to_db_loop vs d = Inr d') \<longleftrightarrow> (\<forall>v\<in>set vs. \<forall>e. save_to_db_row v \<noteq> Inl e)"
proof (induction vs arbitrary: d)
  case Nil show ?case by simp
next
  case (Cons a vs)
  show ?case
  proof (cases "save_to_db_row a")
    case (Inl e) then show ?thesis by auto
  next
    case (Inr x)
    then show ?thesis using Cons.IH by (cases x) auto
  qed
qed

lemma prefix_save_to_db_loop: "save_to_db_loop vs d = Inr d' \<Longrightarrow> prefix d d'"
proof (induction vs arbitrary: d)
  case Nil then show ?case by simp
next
  case (Cons v vs)
  show ?case
  proof (cases "save_to_db_row v")
    case (Inl e) with Cons.prems show ?thesis by simp
  next
    case (Inr x)
    show ?thesis
    proof (cases x)
      case None with Inr Cons show ?thesis by simp
    next
      case (Some r)
      have "prefix d (insert_or_ignore r d)" by (rule prefix_insert_or_ignore)
      also have "prefix (insert_or_ignore r d) d'"
        using Cons.prems Inr Some by (intro Cons.IH) simp
      finally show ?thesis .
    qed
  qed
qed

lemma unique_ids_save_to_db_loop:
  "unique_ids d \<Longrightarrow> save_to_db_loop vs d = Inr d' \<Longrightarrow> unique_ids d'"
proof (induction vs arbitrary: d)
  case Nil then show ?case by simp
next
  case (Cons v vs)
  from Cons.prems(2) obtain x where x: "save_to_db_row v = Inr x"
    by (cases "save_to_db_row v") auto
  show ?case
  proof (cases x)
    case None
    with x Cons.prems(2) have "save_to_db_loop vs d = Inr d'" by simp
    with Cons.prems(1) show ?thesis by (rule Cons.IH)
  next
    case (Some r)
    with x Cons.prems(2) have "save_to_db_loop vs (insert_or_ignore r d) = Inr d'" by simp
    with unique_ids_insert_or_ignore[OF Cons.prems(1)] show ?thesis by (rule Cons.IH)
  qed
qed

lemma save_to_db_loop_skip:
  "save_to_db_row vac = Inr None \<Longrightarrow>
     save_to_db_loop (before @ vac # after) d = save_to_db_loop (before @ after) d"
  by (simp add: save_to_db_loop_append split: sum.splits)

lemma save_to_db_loop_step:
  "save_to_db_row vac = Inr (Some r) \<Longrightarrow> save_to_db_loop before d = Inr d1 \<Longrightarrow>
     save_to_db_loop (before @ vac # after) d = save_to_db_loop after (insert_or_ignore r d1)"
  by (simp add: save_to_db_loop_append)

lemma save_to_db_loop_single:
  "save_to_db_row vac = Inr (Some r) \<Longrightarrow> save_to_db_loop [vac] d = Inr (insert_or_ignore r d)"
  by simp

lemma ids_mono_save_to_db_loop:
  "save_to_db_loop vs d = Inr d' \<Longrightarrow> set (map vac_id d) \<subseteq> set (map vac_id d')"
  using prefix_save_to_db_loop[of vs d d'] by (auto simp: prefix_def)


lemma save_to_db_loop_noop:
  assumes "\<And>v e. v \<in> set vs \<Longrightarrow> save_to_db_row v \<noteq> Inl e"
    and "\<And>v r. v \<in> set vs \<Longrightarrow> save_to_db_row v = Inr (Some r)
           \<Longrightarrow> vac_id r \<noteq> Null \<and> vac_id r \<in> set (map vac_id d)"
  shows "save_to_db_loop vs d = Inr d"
  using assms
proof (induction vs)
  case Nil show ?case by simp
next
  case (Cons v vs)
  have ih: "save_to_db_loop vs d = Inr d"
  proof (rule Cons.IH)
    fix u e assume "u \<in> set vs"
    then show "save_to_db_row u \<noteq> Inl e" using Cons.prems(1)[of u e] by simp
  next
    fix u r assume "u \<in> set vs" "save_to_db_row u = Inr (Some r)"
    then show "vac_id r \<noteq> Null \<and> vac_id r \<in> set (map vac_id d)"
      using Cons.prems(2)[of u r] by simp
  qed
  show ?case
  proof (cases "save_to_db_row v")
    case (Inl e) with Cons.prems(1)[of v e] show ?thesis by simp
  next
    case (Inr x)
    show ?thesis
    proof (cases x)
      case None with Inr ih show ?thesis by simp
    next
      case (Some r)
      with Inr Cons.prems(2)[of v r] have "insert_or_ignore r d = d"
        by (simp add: insert_or_ignore_present)
      with Inr Some ih show ?thesis by simp
    qed
  qed
qed

lemma accepted_ids_save_to_db_loop:
  "save_to_db_loop vs d = Inr d' \<Longrightarrow> v \<in> set vs \<Longrightarrow> save_to_db_row v = Inr (Some r)
     \<Longrightarrow> vac_id r \<in> set (map vac_id d')"
proof (induction vs arbitrary: d)
  case Nil then show ?case by simp
next
  case (Cons a vs)
  show ?case
  proof (cases "v = a")
    case True
    with Cons.prems have l: "save_to_db_loop vs (insert_or_ignore r d) = Inr d'" by simp
    have "vac_id r \<in> set (map vac_id (insert_or_ignore r d))" by (rule id_in_insert_or_ignore)
    then show ?thesis using ids_mono_save_to_db_loop[OF l] by blast
  next
    case False
    with Cons.prems have v: "v \<in> set vs" by simp
    from Cons.prems(1) obtain d1 where "save_to_db_loop vs d1 = Inr d'"
      by (auto split: sum.splits option.splits)
    from Cons.IH[OF this v Cons.prems(3)] show ?thesis .
  qed
qed

lemma save_to_db_loop_idem:
  assumes "save_to_db_loop vs d = Inr d'"
    and "\<And>v r. v \<in> set vs \<Longrightarrow> save_to_db_row v = Inr (Some r) \<Longrightarrow> vac_id r \<noteq> Null"
  shows "save_to_db_loop vs d' = Inr d'"
proof (rule save_to_db_loop_noop)
  fix v e assume "v \<in> set vs"
  then show "save_to_db_row v \<noteq> Inl e"
    using assms(1) save_to_db_loop_completes[of vs d] by blast
next
  fix v r assume "v \<in> set vs" "save_to_db_row v = Inr (Some r)"
  then show "vac_id r \<noteq> Null \<and> vac_id r \<in> set (map vac_id d')"
    using assms(2) accepted_ids_save_to_db_loop[OF assms(1)] by blast
qed

lemma save_to_db_raises: "snd (save_to_db vs d) = Some e \<Longrightarrow> fst (save_to_db vs d) = d"
  by (simp add: save_to_db_def split: sum.splits)


lemma prefix_save_to_db: "prefix d (fst (save_to_db vs d))"
  by (simp add: save_to_db_def prefix_save_to_db_loop split: sum.splits)

lemma unique_ids_save_to_db: "unique_ids d \<Longrightarrow> unique_ids (fst (save_to_db vs d))"
  by (auto simp: save_to_db_def unique_ids_save_to_db_loop split: sum.splits)

lemma save_to_db_skip:
  "save_to_db_row vac = Inr None \<Longrightarrow>
     save_to_db (before @ vac # after) d = save_to_db (before @ after) d"
  by (simp add: save_to_db_def save_to_db_loop_skip)


section \<open>Evaluation at the example inputs\<close>

lemma is_digit_ascii: "48 \<le> c \<Longrightarrow> c \<le> 57 \<Longrightarrow> is_digit c"
  by (simp add: is_digit_def digit_ranges_def)

lemma isdigit_42: "isdigit (ustr ''42'')"
  by (simp add: isdigit_def ustr_def is_digit_ascii)

lemma py_int_42: "py_int (ustr ''42'') = Some 42"
  by code_simp

lemma isdigit_3177: "isdigit (ustr ''3177'')"
  by (simp add: isdigit_def ustr_def is_digit_ascii)

lemma py_int_3177: "py_int (ustr ''3177'') = Some 3177"
  by code_simp

lemma not_isdigit_plus: "\<not> isdigit (ustr ''+3177'')"
  by (simp add: isdigit_def ustr_def is_digit_def digit_ranges_def)

lemma py_int_plus: "py_int (ustr ''+3177'') = Some 3177"
  by code_simp

lemma isdigit_arabic: "isdigit [0x663, 0x661, 0x667, 0x667]"
  by (simp add: isdigit_def is_digit_def digit_ranges_def)

lemma py_int_arabic: "py_int [0x663, 0x661, 0x667, 0x667] = Some 3177"
  by (simp add: py_int_def to_ascii_def is_unicode_space_def decimal_value_def decimal_zeros_def
      is_space_def is_ascii_digit_def MAX_STR_DIGITS_def int_of_digits_def Let_def)

lemma isdigit_superscript: "isdigit [0xB2]"
  by (simp add: isdigit_def is_digit_def digit_ranges_def)

lemma py_int_superscript: "py_int [0xB2] = None"
  by (simp add: py_int_def to_ascii_def is_unicode_space_def decimal_value_def decimal_zeros_def)

lemma in_list_3177: "3177 \<in> set EXCLUDED_EMPLOYEE_IDS"
  by (simp add: EXCLUDED_EMPLOYEE_IDS_def)

lemma not_in_list_42: "42 \<notin> set EXCLUDED_EMPLOYEE_IDS"
  by (simp add: EXCLUDED_EMPLOYEE_IDS_def)

lemma exclusion_check_42: "exclusion_check (Val (ustr ''42'')) = Inr False"
  by (simp add: exclusion_check_def isdigit_42 py_int_42 not_in_list_42 isdigit_nonempty)

lemma exclusion_check_plus: "exclusion_check (Val (ustr ''+3177'')) = Inr False"
  by (simp add: exclusion_check_def not_isdigit_plus)

lemma exclusion_check_superscript: "exclusion_check (Val [0xB2]) = Inl ValueError"
  by (simp add: exclusion_check_def isdigit_superscript py_int_superscript)

lemma example_employer_id: "posting_employer_id (example_posting i eid c) = Some (Val eid)"
  by (simp add: posting_employer_id_def example_posting_def get_d_def)

lemma example_read_contacts:
  "read_contacts (example_posting i eid (Some (Val example_contacts)))
     = (Val [], Val (ustr ''hr@example.com''), Val [])"
  by (simp add: read_contacts_def example_posting_def example_contacts_def get_d_def)


lemma example_email_only: "email_only (example_posting i eid (Some (Val example_contacts)))"
  by (simp add: email_only_def example_read_contacts truthy_def ustr_def)


lemma example_save_to_db_row:
  "exclusion_check (Val eid) = Inr False \<Longrightarrow>
     save_to_db_row (example_posting i eid (Some (Val example_contacts)))
       = Inr (Some (example_row i eid))"
  by (simp add: save_to_db_row_def example_posting_def example_contacts_def example_row_def
      get_d_def resolve_city_def area_name_def read_contacts_def join_roles_def truthy_def
      ustr_def)

lemma example_save_to_db_row_id:
  "exclusion_check (Val eid) = Inr False \<Longrightarrow>
     save_to_db_row ((example_posting i eid (Some (Val example_contacts)))\<lparr>p_id := k\<rparr>)
       = Inr (Some ((example_row i eid)\<lparr>vac_id := get_d k (Val [])\<rparr>))"
  by (simp add: save_to_db_row_def example_posting_def example_contacts_def example_row_def
      get_d_def resolve_city_def area_name_def read_contacts_def join_roles_def truthy_def
      ustr_def)






section \<open>The record filter: exclusion and contact gate\<close>

text \<open>
  Claim C5 (exclusion correctness), as the code has it. The guard of the first
  \<^verbatim>\<open>continue\<close> is \<^verbatim>\<open>employer_id.isdigit()\<close> and then
  \<^verbatim>\<open>int(employer_id) in EXCLUDED_EMPLOYEE_IDS\<close>. So a posting whose employer id is a
  non-empty string of digits with an integer value in the exclusion list is skipped,
  whatever contacts it has: the loop body computes no row for it, and a call of
  \<^verbatim>\<open>save_to_db\<close> on a batch that holds it does exactly what it does on the batch without
  it.
\<close>

theorem exclusion_correctness:
  assumes "posting_employer_id vac = Some (Val eid)"
    and "isdigit eid" and "py_int eid = Some n" and "n \<in> set EXCLUDED_EMPLOYEE_IDS"
  shows "save_to_db_row vac = Inr None
    \<and> save_to_db (before @ vac # after) d = save_to_db (before @ after) d"
proof -
  have "excluded eid" using assms(2-4) by (simp add: excluded_def)
  with assms(1) have "save_to_db_row vac = Inr None" by (rule save_to_db_row_excluded)
  then show ?thesis by (simp add: save_to_db_skip)
qed

text \<open>
  The theorem at the posting of the specification's example, employer id \<^verbatim>\<open>"3177"\<close>
  with an email: it is skipped, and saving it to the empty table leaves the table empty.
\<close>

theorem exclusion_correctness_witness:
  "posting_employer_id (example_posting (ustr ''8'') (ustr ''3177'') (Some (Val example_contacts)))
     = Some (Val (ustr ''3177''))
   \<and> isdigit (ustr ''3177'') \<and> py_int (ustr ''3177'') = Some 3177
   \<and> 3177 \<in> set EXCLUDED_EMPLOYEE_IDS
   \<and> email_only (example_posting (ustr ''8'') (ustr ''3177'') (Some (Val example_contacts)))
   \<and> save_to_db_row (example_posting (ustr ''8'') (ustr ''3177'') (Some (Val example_contacts)))
       = Inr None
   \<and> save_to_db [example_posting (ustr ''8'') (ustr ''3177'') (Some (Val example_contacts))] []
       = ([], None)"
  using exclusion_correctness[of
      "example_posting (ustr ''8'') (ustr ''3177'') (Some (Val example_contacts))"
      "ustr ''3177''" 3177 "[]" "[]" "[]"]
  by (simp add: example_employer_id isdigit_3177 py_int_3177 in_list_3177 example_email_only
      save_to_db_def)

text \<open>
  The digits need not be ASCII: the employer id written with the Arabic-Indic digits
  for 3177 passes \<^verbatim>\<open>isdigit\<close>, \<^verbatim>\<open>int\<close> reads it as 3177, and the posting is skipped.
\<close>

lemma exclusion_arabic_digits:
  "save_to_db_row (example_posting (ustr ''8'') [0x663, 0x661, 0x667, 0x667]
      (Some (Val example_contacts))) = Inr None"
  by (rule save_to_db_row_excluded[OF example_employer_id])
     (simp add: excluded_def isdigit_arabic py_int_arabic in_list_3177)

text \<open>
  The claim as worded, for every employer id that parses as an integer of the exclusion
  set, fails. \<^verbatim>\<open>int\<close> accepts a sign, so \<^verbatim>\<open>"+3177"\<close> parses as 3177, which is in the
  list; but the string is not all digits, the guard does not fire, and the posting, which
  has an email, is stored.
\<close>

theorem exclusion_counterexample:
  "parses_as_excluded (example_posting (ustr ''8'') (ustr ''+3177'') (Some (Val example_contacts)))
   \<and> save_to_db [example_posting (ustr ''8'') (ustr ''+3177'') (Some (Val example_contacts))] []
       = ([example_row (ustr ''8'') (ustr ''+3177'')], None)"
  by (simp add: parses_as_excluded_def example_employer_id py_int_plus in_list_3177
      save_to_db_def example_save_to_db_row[OF exclusion_check_plus] insert_or_ignore_def)




text \<open>
  An exception also keeps such a posting out of the table. The employer id that is
  the one character superscript two (U+00B2) passes \<^verbatim>\<open>isdigit\<close> and is refused by
  \<^verbatim>\<open>int\<close>:
  \<^verbatim>\<open>save_to_db\<close> raises \<^verbatim>\<open>ValueError\<close> before its commit, and no row of the batch is
  stored, not even that of an accepted posting before it.
\<close>

lemma save_to_db_row_superscript:
  "save_to_db_row (example_posting i [0xB2] c) = Inl ValueError"
  by (simp add: save_to_db_row_def example_posting_def get_d_def exclusion_check_superscript)

lemma save_to_db_superscript_raises:
  "save_to_db [example_posting (ustr ''8'') (ustr ''42'') (Some (Val example_contacts)),
               example_posting (ustr ''9'') [0xB2] (Some (Val example_contacts))] []
     = ([], Some ValueError)"
  by (simp add: save_to_db_def example_save_to_db_row[OF exclusion_check_42]
      save_to_db_row_superscript)

section \<open>Properties of the range walker\<close>

text \<open>The ways one turn of the loop of \<^verbatim>\<open>parse_by_date_range\<close> can go.\<close>

lemma loop_raise:
  "fetch w page = Inl e \<Longrightarrow>
     parse_by_date_range_loop fetch w page t st
       = (st\<lparr>requests := requests st @ [(w, page)]\<rparr>, Some e)"
  by (subst parse_by_date_range_loop.simps) simp

lemma loop_empty:
  "fetch w page = Inr data \<Longrightarrow> page_items data = [] \<Longrightarrow>
     parse_by_date_range_loop fetch w page t st
       = (st\<lparr>requests := requests st @ [(w, page)], totals := totals st @ [(w, t)]\<rparr>, None)"
  by (subst parse_by_date_range_loop.simps) simp

lemma loop_save_raises:
  "fetch w page = Inr data \<Longrightarrow> page_items data \<noteq> [] \<Longrightarrow>
   save_to_db (page_items data) (store st) = (d, Some e) \<Longrightarrow>
     parse_by_date_range_loop fetch w page t st
       = (st\<lparr>requests := requests st @ [(w, page)], store := d\<rparr>, Some e)"
  by (subst parse_by_date_range_loop.simps) simp

lemma loop_pages_null:
  "fetch w page = Inr data \<Longrightarrow> page_items data \<noteq> [] \<Longrightarrow>
   save_to_db (page_items data) (store st) = (d, None) \<Longrightarrow>
   get_d (pages data) (Val 1) = Null \<Longrightarrow>
     parse_by_date_range_loop fetch w page t st
       = (st\<lparr>requests := requests st @ [(w, page)], store := d\<rparr>, Some TypeError)"
  by (subst parse_by_date_range_loop.simps) simp

lemma loop_last:
  "fetch w page = Inr data \<Longrightarrow> page_items data \<noteq> [] \<Longrightarrow>
   save_to_db (page_items data) (store st) = (d, None) \<Longrightarrow>
   get_d (pages data) (Val 1) = Val reported \<Longrightarrow>
   int (page + 1) \<ge> reported \<or> page + 1 \<ge> 200 \<Longrightarrow>
     parse_by_date_range_loop fetch w page t st
       = (st\<lparr>requests := requests st @ [(w, page)], store := d,
              totals := totals st @ [(w, t + length (page_items data))]\<rparr>, None)"
  by (subst parse_by_date_range_loop.simps) (auto simp: Let_def)

lemma loop_continue:
  "fetch w page = Inr data \<Longrightarrow> page_items data \<noteq> [] \<Longrightarrow>
   save_to_db (page_items data) (store st) = (d, None) \<Longrightarrow>
   get_d (pages data) (Val 1) = Val reported \<Longrightarrow>
   int (page + 1) < reported \<Longrightarrow> page + 1 < 200 \<Longrightarrow>
     parse_by_date_range_loop fetch w page t st
       = parse_by_date_range_loop fetch w (page + 1) (t + length (page_items data))
           (st\<lparr>requests := requests st @ [(w, page)], store := d\<rparr>)"
  by (subst parse_by_date_range_loop.simps) (auto simp: Let_def)

text \<open>
  A turn that does not go on to the next page ends the walk: it has issued its request,
  the table is the one \<^verbatim>\<open>save_to_db\<close> has left, and either the walk has raised and
  printed no total, or it has printed one total.
\<close>

lemma loop_stops:
  assumes "\<not> next_page fetch w page st"
  shows "\<exists>d tl oc. parse_by_date_range_loop fetch w page t st
            = (st\<lparr>requests := requests st @ [(w, page)], store := d,
                   totals := totals st @ tl\<rparr>, oc)
         \<and> prefix (store st) d \<and> (unique_ids (store st) \<longrightarrow> unique_ids d)
         \<and> ((oc = None \<and> (\<exists>m. tl = [(w, m)])) \<or> ((\<exists>e. oc = Some e) \<and> tl = []))"
proof (cases "fetch w page")
  case (Inl e)
  have "parse_by_date_range_loop fetch w page t st
            = (st\<lparr>requests := requests st @ [(w, page)], store := store st,
                   totals := totals st @ []\<rparr>, Some e)"
    using loop_raise[of fetch w page e t st, OF Inl] by simp
  then show ?thesis by blast
next
  case (Inr data)
  show ?thesis
  proof (cases "page_items data = []")
    case True
    have "parse_by_date_range_loop fetch w page t st
            = (st\<lparr>requests := requests st @ [(w, page)], store := store st,
                   totals := totals st @ [(w, t)]\<rparr>, None)"
      using loop_empty[of fetch w page data t st, OF Inr True] by simp
    then show ?thesis by blast
  next
    case False
    obtain d oc where s: "save_to_db (page_items data) (store st) = (d, oc)"
      by (cases "save_to_db (page_items data) (store st)") auto
    have p: "prefix (store st) d" using prefix_save_to_db[of "store st" "page_items data"] s by simp
    have u: "unique_ids (store st) \<longrightarrow> unique_ids d"
      using unique_ids_save_to_db[of "store st" "page_items data"] s by simp
    show ?thesis
    proof (cases oc)
      case (Some e)
      have "parse_by_date_range_loop fetch w page t st
            = (st\<lparr>requests := requests st @ [(w, page)], store := d,
                   totals := totals st @ []\<rparr>, Some e)"
        using loop_save_raises[of fetch w page data st d e t, OF Inr False] s Some by simp
      with p u show ?thesis by blast
    next
      case None
      show ?thesis
      proof (cases "get_d (pages data) (Val 1)")
        case Null
        have "parse_by_date_range_loop fetch w page t st
            = (st\<lparr>requests := requests st @ [(w, page)], store := d,
                   totals := totals st @ []\<rparr>, Some TypeError)"
          using loop_pages_null[of fetch w page data st d t, OF Inr False _ Null] s None by simp
        with p u show ?thesis by blast
      next
        case (Val reported)
        have "int (page + 1) \<ge> reported \<or> page + 1 \<ge> 200"
          using assms Inr False s None Val by (auto simp: next_page_def)
        then have "parse_by_date_range_loop fetch w page t st
            = (st\<lparr>requests := requests st @ [(w, page)], store := d,
                   totals := totals st @ [(w, t + length (page_items data))]\<rparr>, None)"
          using loop_last[of fetch w page data st d reported t, OF Inr False _ Val] s None
          by simp
        with p u show ?thesis by blast
      qed
    qed
  qed
qed

lemma loop_goes_on:
  assumes "next_page fetch w page st"
  shows "page + 1 < 200 \<and> (\<exists>d m. prefix (store st) d \<and> (unique_ids (store st) \<longrightarrow> unique_ids d)
     \<and> parse_by_date_range_loop fetch w page t st
         = parse_by_date_range_loop fetch w (page + 1) (t + m)
             (st\<lparr>requests := requests st @ [(w, page)], store := d\<rparr>))"
proof -
  from assms obtain data reported where h: "fetch w page = Inr data" "page_items data \<noteq> []"
    "snd (save_to_db (page_items data) (store st)) = None"
    "get_d (pages data) (Val 1) = Val reported" "int (page + 1) < reported" "page + 1 < 200"
    by (auto simp: next_page_def split: sum.splits nullable.splits)
  let ?d = "fst (save_to_db (page_items data) (store st))"
  have s: "save_to_db (page_items data) (store st) = (?d, None)" using h(3) by (simp add: prod_eq_iff)
  have "parse_by_date_range_loop fetch w page t st
         = parse_by_date_range_loop fetch w (page + 1) (t + length (page_items data))
             (st\<lparr>requests := requests st @ [(w, page)], store := ?d\<rparr>)"
    by (rule loop_continue[of fetch w page data st ?d reported t, OF h(1,2) s h(4,5,6)])
  moreover have "prefix (store st) ?d" by (rule prefix_save_to_db)
  moreover have "unique_ids (store st) \<longrightarrow> unique_ids ?d" by (simp add: unique_ids_save_to_db)
  ultimately show ?thesis using h(6) by blast
qed

lemma upt_step: "[page..<page + (n + 1)] = page # [page + 1..<page + 1 + n]"
  using upt_conv_Cons[of page "page + (n + 1)"] by simp

lemma loop_summary:
  "\<exists>n. 1 \<le> n \<and> (page < 200 \<longrightarrow> page + n \<le> 200)
     \<and> requests (fst (parse_by_date_range_loop fetch w page t st))
         = requests st @ map (Pair w) [page..<page + n]
     \<and> prefix (store st) (store (fst (parse_by_date_range_loop fetch w page t st)))
     \<and> (unique_ids (store st)
          \<longrightarrow> unique_ids (store (fst (parse_by_date_range_loop fetch w page t st))))
     \<and> started (fst (parse_by_date_range_loop fetch w page t st)) = started st
     \<and> (case snd (parse_by_date_range_loop fetch w page t st) of
          None \<Rightarrow> \<exists>m. totals (fst (parse_by_date_range_loop fetch w page t st))
                        = totals st @ [(w, m)]
        | Some e \<Rightarrow> totals (fst (parse_by_date_range_loop fetch w page t st)) = totals st)"
proof (induction "200 - page" arbitrary: page t st rule: less_induct)
  case less
  show ?case
  proof (cases "next_page fetch w page st")
    case False
    from loop_stops[OF False, of t] obtain d tl oc where
      r: "parse_by_date_range_loop fetch w page t st
            = (st\<lparr>requests := requests st @ [(w, page)], store := d,
                   totals := totals st @ tl\<rparr>, oc)"
      and p: "prefix (store st) d" and u: "unique_ids (store st) \<longrightarrow> unique_ids d"
      and o: "(oc = None \<and> (\<exists>m. tl = [(w, m)])) \<or> ((\<exists>e. oc = Some e) \<and> tl = [])"
      by blast
    have "requests (fst (parse_by_date_range_loop fetch w page t st))
         = requests st @ map (Pair w) [page..<page + 1]" unfolding r by simp
    moreover have "case snd (parse_by_date_range_loop fetch w page t st) of
          None \<Rightarrow> \<exists>m. totals (fst (parse_by_date_range_loop fetch w page t st))
                        = totals st @ [(w, m)]
        | Some e \<Rightarrow> totals (fst (parse_by_date_range_loop fetch w page t st)) = totals st"
      unfolding r using o by auto
    moreover have "prefix (store st) (store (fst (parse_by_date_range_loop fetch w page t st)))"
      "unique_ids (store st)
          \<longrightarrow> unique_ids (store (fst (parse_by_date_range_loop fetch w page t st)))"
      "started (fst (parse_by_date_range_loop fetch w page t st)) = started st"
      unfolding r using p u by simp_all
    ultimately show ?thesis by (intro exI[of _ 1]) simp
  next
    case True
    from loop_goes_on[OF True, of t] obtain d m where b: "page + 1 < 200"
      and p: "prefix (store st) d" and u: "unique_ids (store st) \<longrightarrow> unique_ids d"
      and r: "parse_by_date_range_loop fetch w page t st
         = parse_by_date_range_loop fetch w (page + 1) (t + m)
             (st\<lparr>requests := requests st @ [(w, page)], store := d\<rparr>)"
      by blast
    define st' where "st' = st\<lparr>requests := requests st @ [(w, page)], store := d\<rparr>"
    define R where "R = parse_by_date_range_loop fetch w (page + 1) (t + m) st'"
    have st': "requests st' = requests st @ [(w, page)]" "store st' = d"
      "started st' = started st" "totals st' = totals st" by (simp_all add: st'_def)
    have r': "parse_by_date_range_loop fetch w page t st = R"
      unfolding R_def st'_def by (rule r)
    have "200 - (page + 1) < 200 - page" using b by simp
    from less[OF this, of "t + m" st', folded R_def] b
    obtain n where n: "1 \<le> n" "page + 1 + n \<le> 200"
      "requests (fst R) = requests st' @ map (Pair w) [page + 1..<page + 1 + n]"
      "prefix (store st') (store (fst R))"
      "unique_ids (store st') \<longrightarrow> unique_ids (store (fst R))"
      "started (fst R) = started st'"
      "case snd R of None \<Rightarrow> \<exists>m. totals (fst R) = totals st' @ [(w, m)]
        | Some e \<Rightarrow> totals (fst R) = totals st'"
      by auto
    have 1: "requests (fst R) = requests st @ map (Pair w) [page..<page + (n + 1)]"
      using n(3) st'(1) unfolding upt_step by simp
    have 2: "prefix (store st) (store (fst R))"
      using p n(4) st'(2) by (auto intro: prefix_order.trans)
    have 3: "unique_ids (store st) \<longrightarrow> unique_ids (store (fst R))" using u n(5) st'(2) by simp
    have 4: "started (fst R) = started st" using n(6) st'(3) by simp
    have 5: "case snd R of None \<Rightarrow> \<exists>m. totals (fst R) = totals st @ [(w, m)]
        | Some e \<Rightarrow> totals (fst R) = totals st"
      using n(7) st'(4) by (auto split: option.splits)
    from n(1,2) 1 2 3 4 5 show ?thesis unfolding r' by (intro exI[of _ "n + 1"]) simp
  qed
qed

lemma parse_by_date_range_summary:
  "\<exists>n. 1 \<le> n \<and> n \<le> 200
     \<and> requests (fst (parse_by_date_range fetch w st)) = requests st @ map (Pair w) [0..<n]
     \<and> (case snd (parse_by_date_range fetch w st) of
          None \<Rightarrow> \<exists>m. totals (fst (parse_by_date_range fetch w st)) = totals st @ [(w, m)]
        | Some e \<Rightarrow> totals (fst (parse_by_date_range fetch w st)) = totals st)"
proof -
  let ?st = "st\<lparr>started := started st @ [w]\<rparr>"
  let ?R = "parse_by_date_range_loop fetch w 0 0 ?st"
  obtain n where n: "1 \<le> n" "0 + n \<le> 200"
    "requests (fst ?R) = requests ?st @ map (Pair w) [0..<0 + n]"
    "case snd ?R of None \<Rightarrow> \<exists>m. totals (fst ?R) = totals ?st @ [(w, m)]
     | Some e \<Rightarrow> totals (fst ?R) = totals ?st"
    using loop_summary[of 0 fetch w 0 ?st] by auto
  have R: "parse_by_date_range fetch w st = ?R" by (simp add: parse_by_date_range_def)
  from n show ?thesis unfolding R by (intro exI[of _ n]) (simp split: option.splits)
qed

lemma parse_by_date_range_prefix:
  "prefix (store st) (store (fst (parse_by_date_range fetch w st)))"
  using loop_summary[of 0 fetch w 0 "st\<lparr>started := started st @ [w]\<rparr>"]
  by (auto simp: parse_by_date_range_def)

lemma parse_by_date_range_unique:
  "unique_ids (store st) \<Longrightarrow> unique_ids (store (fst (parse_by_date_range fetch w st)))"
  using loop_summary[of 0 fetch w 0 "st\<lparr>started := started st @ [w]\<rparr>"]
  by (auto simp: parse_by_date_range_def)

lemma parse_by_date_range_started:
  "started (fst (parse_by_date_range fetch w st)) = started st @ [w]"
  using loop_summary[of 0 fetch w 0 "st\<lparr>started := started st @ [w]\<rparr>"]
  by (auto simp: parse_by_date_range_def)

lemma loop_ceiling_reached:
  assumes "\<And>p. fetch w p = Inr data" "page_items data \<noteq> []"
    "\<And>d. snd (save_to_db (page_items data) d) = None"
    "get_d (pages data) (Val 1) = Val reported" "reported > 200"
  shows "page < 200 \<Longrightarrow>
     requests (fst (parse_by_date_range_loop fetch w page t st))
       = requests st @ map (Pair w) [page..<200]"
proof (induction "200 - page" arbitrary: page t st rule: less_induct)
  case less
  let ?d = "fst (save_to_db (page_items data) (store st))"
  have s: "save_to_db (page_items data) (store st) = (?d, None)"
    using assms(3)[of "store st"] by (simp add: prod_eq_iff)
  show ?case
  proof (cases "page + 1 \<ge> 200")
    case True
    with less.prems have p: "page = 199" by simp
    show ?thesis
      using loop_last[of fetch w page data st ?d reported t, OF assms(1) assms(2) s assms(4)]
        True p by simp
  next
    case False
    then have b: "page + 1 < 200" by simp
    have a: "int (page + 1) < reported" using assms(5) b by simp
    have "200 - (page + 1) < 200 - page" using b by simp
    from less.hyps[OF this b]
    have "requests (fst (parse_by_date_range_loop fetch w (page + 1)
        (t + length (page_items data))
        (st\<lparr>requests := requests st @ [(w, page)], store := ?d\<rparr>)))
      = (requests st @ [(w, page)]) @ map (Pair w) [page + 1..<200]" by simp
    moreover have "[page..<200] = page # [page + 1..<200]"
      using b by (simp add: upt_rec[of page])
    ultimately show ?thesis
      using loop_continue[of fetch w page data st ?d reported t, OF assms(1) assms(2) s assms(4) a b]
      by simp
  qed
qed

section \<open>The range walker: totals, page ceiling, missing page count\<close>

lemma page_items_upstream_one:
  "page_items \<lparr>items = Some (Val [vac]), pages = reported\<rparr> = [vac]"
  by (simp add: page_items_def get_d_def)





text \<open>
  Claim C4 (ceiling enforcement). Whatever the upstream answers and whatever page count
  it reports, the requests one walk issues are those of the pages \<open>0, ..., n - 1\<close> of its
  window, in this order, with \<open>1 \<le> n \<le> 200\<close>: at most 200 requests, none past page 199.
\<close>

theorem page_ceiling:
  "\<exists>n. 1 \<le> n \<and> n \<le> 200
     \<and> requests (fst (parse_by_date_range fetch w st)) = requests st @ map (Pair w) [0..<n]
     \<and> length (requests (fst (parse_by_date_range fetch w st))) \<le> length (requests st) + 200"
proof -
  obtain n where n: "1 \<le> n" "n \<le> 200"
    "requests (fst (parse_by_date_range fetch w st)) = requests st @ map (Pair w) [0..<n]"
    using parse_by_date_range_summary[of fetch w st] by blast
  then have "length (requests (fst (parse_by_date_range fetch w st))) \<le> length (requests st) + 200"
    by simp
  with n show ?thesis by blast
qed

text \<open>
  The bound is reached: an upstream that always answers with a posting and reports 1000
  pages is asked for the pages 0 to 199 and no more.
\<close>

theorem page_ceiling_witness:
  "requests (fst (parse_by_date_range
       (upstream_one (example_posting (ustr ''8'') (ustr ''42'') (Some (Val example_contacts)))
          (Some (Val 1000))) (0, 0) initial_state))
     = map (Pair (0, 0)) [0..<200]
   \<and> length (requests (fst (parse_by_date_range
       (upstream_one (example_posting (ustr ''8'') (ustr ''42'') (Some (Val example_contacts)))
          (Some (Val 1000))) (0, 0) initial_state))) \<le> 200"
proof -
  let ?v = "example_posting (ustr ''8'') (ustr ''42'') (Some (Val example_contacts))"
  let ?f = "upstream_one ?v (Some (Val 1000))"
  have s: "\<And>d. snd (save_to_db [?v] d) = None"
    by (simp add: save_to_db_def example_save_to_db_row[OF exclusion_check_42])
  have "requests (fst (parse_by_date_range_loop ?f (0, 0) 0 0
            (initial_state\<lparr>started := started initial_state @ [(0, 0)]\<rparr>)))
      = requests (initial_state\<lparr>started := started initial_state @ [(0, 0)]\<rparr>)
          @ map (Pair (0, 0)) [0..<200]"
    by (rule loop_ceiling_reached[where data = "\<lparr>items = Some (Val [?v]), pages = Some (Val 1000)\<rparr>"
          and reported = 1000])
       (simp_all add: upstream_one_def get_d_def page_items_upstream_one s)
  then have 1: "requests (fst (parse_by_date_range ?f (0, 0) initial_state))
      = map (Pair (0, 0)) [0..<200]"
    by (simp add: parse_by_date_range_def initial_state_def)
  have 2: "length (requests (fst (parse_by_date_range ?f (0, 0) initial_state))) \<le> 200"
    using page_ceiling[of ?f "(0, 0)" initial_state] by (auto simp: initial_state_def)
  from 1 2 show ?thesis by blast
qed

text \<open>
  Claim C10 (no \<^verbatim>\<open>pages\<close> field). When the answer to the request of a page has a
  non-empty item list and no \<^verbatim>\<open>pages\<close> key, the page count is read as 1, so the test
  \<^verbatim>\<open>page >= data.get("pages", 1)\<close> holds after the increment and the walk ends right
  after this page, however many items it has: no further request is issued. When
  \<^verbatim>\<open>save_to_db\<close> completes on the items, the walk stores them and prints its total; when
  it raises, the walk ends with that exception. For the first page this is a walk of
  one request, that of page 0.
\<close>

theorem missing_pages_field:
  assumes "fetch w page = Inr data" "items data = Some (Val vacancies)" "vacancies \<noteq> []"
    "pages data = None"
  shows "get_d (pages data) (Val 1) = Val 1
    \<and> requests (fst (parse_by_date_range_loop fetch w page t st)) = requests st @ [(w, page)]
    \<and> (case snd (save_to_db vacancies (store st)) of
         None \<Rightarrow>
           parse_by_date_range_loop fetch w page t st
             = (st\<lparr>requests := requests st @ [(w, page)],
                   store := fst (save_to_db vacancies (store st)),
                   totals := totals st @ [(w, t + length vacancies)]\<rparr>, None)
       | Some e \<Rightarrow>
           parse_by_date_range_loop fetch w page t st
             = (st\<lparr>requests := requests st @ [(w, page)]\<rparr>, Some e))
    \<and> (page = 0 \<longrightarrow>
         requests (fst (parse_by_date_range fetch w st)) = requests st @ [(w, 0)]
         \<and> (case snd (save_to_db vacancies (store st)) of
              None \<Rightarrow>
                parse_by_date_range fetch w st
                  = (st\<lparr>started := started st @ [w], requests := requests st @ [(w, 0)],
                        store := fst (save_to_db vacancies (store st)),
                        totals := totals st @ [(w, length vacancies)]\<rparr>, None)
            | Some e \<Rightarrow>
                parse_by_date_range fetch w st
                  = (st\<lparr>started := started st @ [w], requests := requests st @ [(w, 0)]\<rparr>,
                     Some e)))"
proof -
  have p: "get_d (pages data) (Val 1) = Val 1" using assms(4) by (simp add: get_d_def)
  have v: "page_items data = vacancies" using assms(2) by (simp add: page_items_def get_d_def)
  have ne: "page_items data \<noteq> []" using v assms(3) by simp
  have l: "case snd (save_to_db vacancies (store st)) of
         None \<Rightarrow>
           parse_by_date_range_loop fetch w page t st
             = (st\<lparr>requests := requests st @ [(w, page)],
                   store := fst (save_to_db vacancies (store st)),
                   totals := totals st @ [(w, t + length vacancies)]\<rparr>, None)
       | Some e \<Rightarrow>
           parse_by_date_range_loop fetch w page t st
             = (st\<lparr>requests := requests st @ [(w, page)]\<rparr>, Some e)" for t st
  proof (cases "snd (save_to_db vacancies (store st))")
    case None
    then have s: "save_to_db (page_items data) (store st)
        = (fst (save_to_db vacancies (store st)), None)" using v by (simp add: prod_eq_iff)
    show ?thesis
      using loop_last[of fetch w page data st "fst (save_to_db vacancies (store st))" 1 t,
          OF assms(1) ne s p] None v by simp
  next
    case (Some e)
    then have d: "fst (save_to_db vacancies (store st)) = store st" by (rule save_to_db_raises)
    with Some have s: "save_to_db (page_items data) (store st) = (store st, Some e)"
      using v by (simp add: prod_eq_iff)
    show ?thesis
      using loop_save_raises[of fetch w page data st "store st" e t, OF assms(1) ne s] Some
      by simp
  qed
  have r: "requests (fst (parse_by_date_range_loop fetch w page t st)) = requests st @ [(w, page)]"
    for t st
    using l[of t st] by (cases "snd (save_to_db vacancies (store st))") simp_all
  have "page = 0 \<longrightarrow>
         requests (fst (parse_by_date_range fetch w st)) = requests st @ [(w, 0)]
         \<and> (case snd (save_to_db vacancies (store st)) of
              None \<Rightarrow>
                parse_by_date_range fetch w st
                  = (st\<lparr>started := started st @ [w], requests := requests st @ [(w, 0)],
                        store := fst (save_to_db vacancies (store st)),
                        totals := totals st @ [(w, length vacancies)]\<rparr>, None)
            | Some e \<Rightarrow>
                parse_by_date_range fetch w st
                  = (st\<lparr>started := started st @ [w], requests := requests st @ [(w, 0)]\<rparr>,
                     Some e))"
    using l[of 0 "st\<lparr>started := started st @ [w]\<rparr>"] r[of 0 "st\<lparr>started := started st @ [w]\<rparr>"]
    by (auto simp: parse_by_date_range_def split: option.splits)
  with p l[of t st] r[of t st] show ?thesis by blast
qed

text \<open>The theorem at an upstream that answers with one posting and no page count.\<close>

theorem missing_pages_field_witness:
  "parse_by_date_range
      (upstream_one (example_posting (ustr ''8'') (ustr ''42'') (Some (Val example_contacts))) None)
      (0, 0) initial_state
     = (initial_state\<lparr>started := [(0, 0)], requests := [((0, 0), 0)],
          store := [example_row (ustr ''8'') (ustr ''42'')],
          totals := [((0, 0), 1)]\<rparr>, None)"
proof -
  let ?v = "example_posting (ustr ''8'') (ustr ''42'') (Some (Val example_contacts))"
  have s: "save_to_db [?v] [] = ([example_row (ustr ''8'') (ustr ''42'')], None)"
    by (simp add: save_to_db_def example_save_to_db_row[OF exclusion_check_42]
        insert_or_ignore_def)
  show ?thesis
    using missing_pages_field[of "upstream_one ?v None" "(0, 0)" 0
        "\<lparr>items = Some (Val [?v]), pages = None\<rparr>" "[?v]" 0 initial_state] s
    by (simp add: upstream_one_def initial_state_def)
qed

section \<open>Properties of the window partitioner\<close>

lemma pwp_done:
  "\<not> i < parts \<Longrightarrow>
     parse_with_parts_loop walk dt_end b r parts i cs st = (st, None)"
  by (subst parse_with_parts_loop.simps) simp

lemma pwp_raise:
  "i < parts \<Longrightarrow> walk (cs, window_end dt_end b r i cs) st = (st', Some e) \<Longrightarrow>
     parse_with_parts_loop walk dt_end b r parts i cs st = (st', Some e)"
  by (subst parse_with_parts_loop.simps) (simp add: window_end_def Let_def)

lemma pwp_break:
  "i < parts \<Longrightarrow> walk (cs, window_end dt_end b r i cs) st = (st', None) \<Longrightarrow>
   window_end dt_end b r i cs + 1 > dt_end \<Longrightarrow>
     parse_with_parts_loop walk dt_end b r parts i cs st = (st', None)"
  by (subst parse_with_parts_loop.simps) (simp add: window_end_def Let_def)

lemma pwp_continue:
  "i < parts \<Longrightarrow> walk (cs, window_end dt_end b r i cs) st = (st', None) \<Longrightarrow>
   \<not> window_end dt_end b r i cs + 1 > dt_end \<Longrightarrow>
     parse_with_parts_loop walk dt_end b r parts i cs st
       = parse_with_parts_loop walk dt_end b r parts (i + 1)
           (window_end dt_end b r i cs + 1) st'"
  by (subst parse_with_parts_loop.simps) (simp add: window_end_def Let_def)

lemma pwp_induct [case_names finished raised stopped continued]:
  assumes "\<And>i cs st. \<not> i < parts \<Longrightarrow> P i cs st"
    and "\<And>i cs st st' e. i < parts \<Longrightarrow>
           walk (cs, window_end dt_end b r i cs) st = (st', Some e) \<Longrightarrow> P i cs st"
    and "\<And>i cs st st'. i < parts \<Longrightarrow>
           walk (cs, window_end dt_end b r i cs) st = (st', None) \<Longrightarrow>
           window_end dt_end b r i cs + 1 > dt_end \<Longrightarrow> P i cs st"
    and "\<And>i cs st st'. i < parts \<Longrightarrow>
           walk (cs, window_end dt_end b r i cs) st = (st', None) \<Longrightarrow>
           \<not> window_end dt_end b r i cs + 1 > dt_end \<Longrightarrow>
           P (i + 1) (window_end dt_end b r i cs + 1) st' \<Longrightarrow> P i cs st"
  shows "P i cs st"
proof -
  have "nat (parts - i) = k \<Longrightarrow> P i cs st" for k
  proof (induction k arbitrary: i cs st rule: less_induct)
    case (less k i cs st)
    show ?case
    proof (cases "i < parts")
      case False then show ?thesis by (rule assms(1))
    next
      case True
      obtain st' res where w: "walk (cs, window_end dt_end b r i cs) st = (st', res)"
        by (cases "walk (cs, window_end dt_end b r i cs) st") auto
      show ?thesis
      proof (cases res)
        case (Some e)
        from True w[unfolded Some] show ?thesis by (rule assms(2))
      next
        case None
        show ?thesis
        proof (cases "window_end dt_end b r i cs + 1 > dt_end")
          case brk: True
          from True w[unfolded None] brk show ?thesis by (rule assms(3))
        next
          case False
          have "nat (parts - (i + 1)) < k" using True less.prems by simp
          from less.IH[OF this refl]
          have "P (i + 1) (window_end dt_end b r i cs + 1) st'" .
          with True w[unfolded None] False show ?thesis by (rule assms(4))
        qed
      qed
    qed
  qed
  then show ?thesis by simp
qed

text \<open>A relation that every walk keeps is kept by the loop.\<close>

lemma pwp_loop_rel:
  assumes "\<And>s. R s s" and "\<And>a b c. R a b \<Longrightarrow> R b c \<Longrightarrow> R a c"
    and "\<And>w s. R s (fst (walk w s))"
  shows "R st (fst (parse_with_parts_loop walk dt_end b r parts i cs st))"
proof (induction i cs st rule: pwp_induct[where walk = walk and dt_end = dt_end and b = b
      and r = r and parts = parts])
  case (finished i cs st)
  then show ?case by (simp add: pwp_done assms(1))
next
  case (raised i cs st st' e)
  have "R st (fst (walk (cs, window_end dt_end b r i cs) st))" by (rule assms(3))
  then show ?case using pwp_raise[where walk = walk, OF raised] raised(2) by simp
next
  case (stopped i cs st st')
  have "R st (fst (walk (cs, window_end dt_end b r i cs) st))" by (rule assms(3))
  then show ?case using pwp_break[where walk = walk, OF stopped] stopped(2) by simp
next
  case (continued i cs st st')
  have "R st (fst (walk (cs, window_end dt_end b r i cs) st))" by (rule assms(3))
  then have "R st st'" using continued(2) by simp
  from assms(2)[OF this continued(4)] show ?case using pwp_continue[where walk = walk, OF continued(1-3)] by simp
qed

text \<open>The recording walk appends to its list.\<close>

lemma pwp_record_append:
  "fst (parse_with_parts_loop record_window dt_end b r parts i cs ws)
     = ws @ fst (parse_with_parts_loop record_window dt_end b r parts i cs [])"
proof (induction "nat (parts - i)" arbitrary: i cs ws rule: less_induct)
  case less
  show ?case
  proof (cases "i < parts")
    case False then show ?thesis by (simp add: pwp_done)
  next
    case True
    let ?w = "(cs, window_end dt_end b r i cs)"
    have rw: "\<And>xs. record_window ?w xs = (xs @ [?w], None)" by (simp add: record_window_def)
    show ?thesis
    proof (cases "window_end dt_end b r i cs + 1 > dt_end")
      case brk: True
      show ?thesis
        using pwp_break[where walk = record_window, OF True rw brk] by simp
    next
      case False
      have m: "nat (parts - (i + 1)) < nat (parts - i)" using True by simp
      have 1: "fst (parse_with_parts_loop record_window dt_end b r parts i cs ws)
          = (ws @ [?w]) @ fst (parse_with_parts_loop record_window dt_end b r parts (i + 1)
               (window_end dt_end b r i cs + 1) [])"
        using pwp_continue[where walk = record_window, OF True rw False] less[OF m, of _ "ws @ [?w]"] by simp
      have 2: "fst (parse_with_parts_loop record_window dt_end b r parts i cs [])
          = [?w] @ fst (parse_with_parts_loop record_window dt_end b r parts (i + 1)
               (window_end dt_end b r i cs + 1) [])"
        using pwp_continue[where walk = record_window, OF True rw False] less[OF m, of _ "[] @ [?w]"] by simp
      from 1 2 show ?thesis by simp
    qed
  qed
qed

end
